theory Spec2Isabelle
  imports Main
begin

section \<open>Christmas piano lights: the controller of both variants\<close>

text \<open>
  The repository holds two variants of one class \<open>PianoLightsController\<close>:
  \<open>piano_lights.py\<close> polls a pygame MIDI input, \<open>piano_lights_rtmidi.py\<close> receives each
  message through an rtmidi callback. The methods \<open>set_relay\<close>, \<open>handle_note_on\<close>,
  \<open>handle_note_off\<close> and the relay loop of \<open>cleanup\<close> are the same text in both files;
  the variants differ in the table \<open>octave_ranges\<close> and in the decode path
  (\<open>process_midi_events\<close> against \<open>midi_callback\<close>).

  Python integers are \<open>int\<close>. A relay channel is an index produced by \<open>enumerate\<close> or
  \<open>range\<close>, hence a \<open>nat\<close>; the lower half \<open>0 <= relay_channel\<close> of the guard of
  \<open>set_relay\<close> holds for every such index.
\<close>

subsection \<open>Data\<close>

text \<open>
  The attributes of the object. \<open>midi_input\<close> is a handle of the MIDI library and stays
  outside; the queue it delivers is an argument of the decode paths. \<open>emitted\<close> is not an
  attribute: it records, in order, every call of \<open>set_relay\<close> that passes its guard, that
  is every \<open>GPIO.output(relay_pins[c], LOW if state else HIGH)\<close> together with its
  \<open>Relay c+1 ON/OFF\<close> line.
\<close>

record controller =
  relay_pins :: "int list"
  note_to_relay :: "int \<rightharpoonup> nat"
  active_notes :: "int set"
  running :: bool
  emitted :: "(nat \<times> bool) list"

datatype error = IndexError

text \<open>An event is the pair the library hands over: the message bytes and a time stamp.\<close>

type_synonym 'ts event = "int list \<times> 'ts"

subsection \<open>The note table\<close>

text \<open>The inner loop \<open>for note in range(start_note, end_note + 1)\<close>.\<close>

definition fill_range :: "nat \<Rightarrow> int \<Rightarrow> int \<Rightarrow> (int \<rightharpoonup> nat) \<Rightarrow> (int \<rightharpoonup> nat)" where
  "fill_range relay_channel start_note end_note m =
     fold (\<lambda>note m'. m'(note \<mapsto> relay_channel)) [start_note..end_note] m"

text \<open>
  \<open>setup_note_mapping\<close>: the table starts empty and the outer loop runs over
  \<open>enumerate(octave_ranges)\<close>. The list of ranges is a local constant of the method, a
  different one in each file; here it is the argument.
\<close>

definition setup_note_mapping :: "(int \<times> int) list \<Rightarrow> (int \<rightharpoonup> nat)" where
  "setup_note_mapping octave_ranges =
     fold (\<lambda>(relay_channel, (start_note, end_note)). fill_range relay_channel start_note end_note)
       (enumerate 0 octave_ranges) Map.empty"

text \<open>\<open>octave_ranges\<close> of \<open>piano_lights.py\<close>.\<close>

definition octave_ranges_pygame :: "(int \<times> int) list" where
  "octave_ranges_pygame =
     [(21, 34), (35, 47), (48, 59), (60, 71), (72, 83), (84, 95), (96, 107), (108, 108)]"

text \<open>\<open>octave_ranges\<close> of \<open>piano_lights_rtmidi.py\<close>.\<close>

definition octave_ranges_rtmidi :: "(int \<times> int) list" where
  "octave_ranges_rtmidi =
     [(21, 47), (48, 53), (54, 59), (60, 65), (66, 71), (72, 77), (78, 83), (84, 108)]"

text \<open>
  The object as \<open>__init__\<close> leaves it when it returns: the pins, the table, no active
  note, not running. \<open>setup_gpio\<close> writes the pins directly, not through \<open>set_relay\<close>.
\<close>

definition init :: "(int \<times> int) list \<Rightarrow> controller" where
  "init octave_ranges =
     \<lparr>relay_pins = [18, 19, 20, 21, 22, 23, 24, 25],
      note_to_relay = setup_note_mapping octave_ranges,
      active_notes = {},
      running = False,
      emitted = []\<rparr>"

subsection \<open>Relays and notes\<close>

definition set_relay :: "controller \<Rightarrow> nat \<Rightarrow> bool \<Rightarrow> controller" where
  "set_relay s relay_channel state =
     (if relay_channel < length (relay_pins s)
      then s\<lparr>emitted := emitted s @ [(relay_channel, state)]\<rparr>
      else s)"

definition handle_note_on :: "controller \<Rightarrow> int \<Rightarrow> int \<Rightarrow> controller" where
  "handle_note_on s note velocity =
     (case note_to_relay s note of
        None \<Rightarrow> s
      | Some relay_channel \<Rightarrow>
          if velocity > 0
          then set_relay (s\<lparr>active_notes := insert note (active_notes s)\<rparr>) relay_channel True
          else s)"

definition handle_note_off :: "controller \<Rightarrow> int \<Rightarrow> controller" where
  "handle_note_off s note =
     (case note_to_relay s note of
        None \<Rightarrow> s
      | Some relay_channel \<Rightarrow>
          if note \<in> active_notes s
          then set_relay (s\<lparr>active_notes := active_notes s - {note}\<rparr>) relay_channel False
          else s)"

subsection \<open>The decode paths\<close>

text \<open>
  The body of the loop of \<open>process_midi_events\<close>. \<open>data[0]\<close> and \<open>data[1]\<close> are read
  without a check and raise \<open>IndexError\<close> on a shorter list, before anything is changed;
  only \<open>data[2]\<close> is guarded by the length.
\<close>

definition process_event :: "controller \<Rightarrow> 'ts event \<Rightarrow> (error \<times> controller) + controller" where
  "process_event s event =
     (let data = fst event in
      if length data < 2 then Inl (IndexError, s)
      else
        let status = data ! 0;
            note = data ! 1;
            velocity = (if length data > 2 then data ! 2 else 0)
        in if 0x80 \<le> status \<and> status \<le> 0x8F then Inr (handle_note_off s note)
           else if 0x90 \<le> status \<and> status \<le> 0x9F then
             (if velocity = 0 then Inr (handle_note_off s note)
              else Inr (handle_note_on s note velocity))
           else Inr s)"

text \<open>\<open>for event in midi_events\<close>: an exception leaves the loop with the state reached.\<close>

fun process_events :: "controller \<Rightarrow> 'ts event list \<Rightarrow> (error \<times> controller) + controller" where
  "process_events s [] = Inr s"
| "process_events s (event # midi_events) =
     (case process_event s event of
        Inl e \<Rightarrow> Inl e
      | Inr s' \<Rightarrow> process_events s' midi_events)"

text \<open>
  \<open>process_midi_events\<close>. The input device is the queue \<open>pending\<close> of events that have
  arrived: \<open>poll()\<close> tells whether it is non-empty, \<open>read(10)\<close> takes up to ten events off
  its front. The result is the outcome of the loop and the queue left behind.
\<close>

definition process_midi_events ::
  "controller \<Rightarrow> 'ts event list \<Rightarrow> ((error \<times> controller) + controller) \<times> 'ts event list" where
  "process_midi_events s pending =
     (if pending \<noteq> [] then (process_events s (take 10 pending), drop 10 pending)
      else (Inr s, pending))"

text \<open>\<open>midi_callback\<close> of the rtmidi variant, called once for each message.\<close>

definition midi_callback :: "controller \<Rightarrow> 'ts event \<Rightarrow> controller" where
  "midi_callback s event =
     (let message = fst event in
      if length message \<ge> 3 then
        let status = message ! 0;
            note = message ! 1;
            velocity = message ! 2
        in if 0x80 \<le> status \<and> status \<le> 0x8F then handle_note_off s note
           else if 0x90 \<le> status \<and> status \<le> 0x9F then
             (if velocity = 0 then handle_note_off s note
              else handle_note_on s note velocity)
           else s
      else s)"

subsection \<open>Shutdown\<close>

text \<open>
  \<open>cleanup\<close>: the flag, then \<open>set_relay(i, False)\<close> for \<open>i in range(len(relay_pins))\<close>.
  Releasing the GPIO and closing the MIDI input touch no attribute of the object.
\<close>

definition cleanup :: "controller \<Rightarrow> controller" where
  "cleanup s =
     fold (\<lambda>i s'. set_relay s' i False) [0..<length (relay_pins s)] (s\<lparr>running := False\<rparr>)"

text \<open>
  \<open>run\<close>: \<open>k\<close> turns of the loop \<open>while self.running: self.process_midi_events()\<close>
  on a queue that receives nothing more meanwhile. An exception ends the loop.
\<close>

fun run_loop ::
  "nat \<Rightarrow> controller \<Rightarrow> 'ts event list \<Rightarrow> ((error \<times> controller) + controller) \<times> 'ts event list" where
  "run_loop 0 s pending = (Inr s, pending)"
| "run_loop (Suc k) s pending =
     (case process_midi_events s pending of
        (Inl e, rest) \<Rightarrow> (Inl e, rest)
      | (Inr s', rest) \<Rightarrow> run_loop k s' rest)"

subsection \<open>Well-formed controllers\<close>

text \<open>
  What \<open>__init__\<close> establishes and no method changes: eight pins, and a table whose
  channels are indices of pins.
\<close>

definition wf_controller :: "controller \<Rightarrow> bool" where
  "wf_controller s \<longleftrightarrow>
     length (relay_pins s) = 8 \<and> (\<forall>n c. note_to_relay s n = Some c \<longrightarrow> c < length (relay_pins s))"

text \<open>
  The invariant of event processing: every active note is a key of the table, and every
  channel in the record of emissions is a value of the table and an index of a pin.
\<close>

definition tracker_inv :: "controller \<Rightarrow> bool" where
  "tracker_inv s \<longleftrightarrow>
     length (relay_pins s) = 8 \<and>
     active_notes s \<subseteq> dom (note_to_relay s) \<and>
     (\<forall>(c, state) \<in> set (emitted s). c \<in> ran (note_to_relay s) \<and> c < 8)"

subsection \<open>Ranges and partitions\<close>

text \<open>A range \<open>(start_note, end_note)\<close> holds the notes of \<open>range(start_note, end_note + 1)\<close>.\<close>

definition in_range :: "int \<times> int \<Rightarrow> int \<Rightarrow> bool" where
  "in_range r note \<longleftrightarrow> fst r \<le> note \<and> note \<le> snd r"

text \<open>
  The outer loop of \<open>setup_note_mapping\<close> entered with channel index \<open>k\<close> and table \<open>m\<close>;
  \<open>setup_note_mapping\<close> is the case \<open>k = 0\<close> on the empty table.
\<close>

definition fill_all :: "nat \<Rightarrow> (int \<times> int) list \<Rightarrow> (int \<rightharpoonup> nat) \<Rightarrow> (int \<rightharpoonup> nat)" where
  "fill_all k octave_ranges m =
     fold (\<lambda>(relay_channel, (start_note, end_note)). fill_range relay_channel start_note end_note)
       (enumerate k octave_ranges) m"


subsection \<open>Where the decode paths meet\<close>



section \<open>Properties\<close>

subsection \<open>The table, range by range\<close>

lemma fold_upd_apply:
  "fold (\<lambda>note m'. m'(note \<mapsto> c)) xs m n = (if n \<in> set xs then Some c else m n)"
  by (induction xs arbitrary: m) auto

lemma fill_range_apply:
  "fill_range c a b m n = (if a \<le> n \<and> n \<le> b then Some c else m n)"
  by (simp add: fill_range_def fold_upd_apply)

lemma fill_all_Nil: "fill_all k [] m = m"
  by (simp add: fill_all_def)

lemma fill_all_Cons: "fill_all k (r # rs) m = fill_all (Suc k) rs (fill_range k (fst r) (snd r) m)"
  by (cases r) (simp add: fill_all_def)

lemma setup_note_mapping_fill_all: "setup_note_mapping rs = fill_all 0 rs Map.empty"
  by (simp add: setup_note_mapping_def fill_all_def)

lemma fill_all_none:
  "(\<forall>i<length rs. \<not> in_range (rs ! i) n) \<Longrightarrow> fill_all k rs m n = m n"
proof (induction rs arbitrary: k m)
  case Nil
  show ?case by (simp add: fill_all_Nil)
next
  case (Cons r rs)
  from Cons.prems have r: "\<not> in_range r n" by auto
  from Cons.prems have rest: "\<forall>i<length rs. \<not> in_range (rs ! i) n" by auto
  show ?case using r Cons.IH [OF rest]
    by (auto simp: fill_all_Cons fill_range_apply in_range_def)
qed

lemma fill_all_last:
  "i < length rs \<Longrightarrow> in_range (rs ! i) n \<Longrightarrow>
   (\<forall>j. i < j \<and> j < length rs \<longrightarrow> \<not> in_range (rs ! j) n) \<Longrightarrow>
   fill_all k rs m n = Some (k + i)"
proof (induction rs arbitrary: i k m)
  case Nil
  then show ?case by simp
next
  case (Cons r rs)
  show ?case
  proof (cases i)
    case 0
    with Cons.prems have r: "in_range r n" by simp
    from 0 Cons.prems have "\<forall>j<length rs. \<not> in_range (rs ! j) n" by auto
    then have "fill_all (Suc k) rs (fill_range k (fst r) (snd r) m) n = fill_range k (fst r) (snd r) m n"
      by (rule fill_all_none)
    with r 0 show ?thesis by (simp add: fill_all_Cons fill_range_apply in_range_def)
  next
    case (Suc i')
    with Cons.prems have a: "i' < length rs" and b: "in_range (rs ! i') n" by auto
    from Suc Cons.prems have c: "\<forall>j. i' < j \<and> j < length rs \<longrightarrow> \<not> in_range (rs ! j) n" by auto
    from Cons.IH [OF a b c] Suc show ?thesis by (simp add: fill_all_Cons)
  qed
qed

lemma fill_all_bound:
  "fill_all k rs m n = Some c \<Longrightarrow> m n = Some c \<or> (k \<le> c \<and> c < k + length rs)"
proof (induction rs arbitrary: k m)
  case Nil
  then show ?case by (simp add: fill_all_Nil)
next
  case (Cons r rs)
  from Cons.prems have "fill_all (Suc k) rs (fill_range k (fst r) (snd r) m) n = Some c"
    by (simp add: fill_all_Cons)
  from Cons.IH [OF this] show ?case
    by (auto simp: fill_range_apply split: if_splits)
qed

lemma setup_note_mapping_bound: "setup_note_mapping rs n = Some c \<Longrightarrow> c < length rs"
  using fill_all_bound [of 0 rs Map.empty n c] by (simp add: setup_note_mapping_fill_all)

text \<open>A greatest index with a property exists as soon as one index has it.\<close>

lemma last_index_ex:
  "i < (k::nat) \<Longrightarrow> P i \<Longrightarrow> \<exists>c<k. P c \<and> (\<forall>j. c < j \<and> j < k \<longrightarrow> \<not> P j)"
proof (induction k)
  case 0
  then show ?case by simp
next
  case (Suc k)
  show ?case
  proof (cases "P k")
    case True
    then have "k < Suc k \<and> P k \<and> (\<forall>j. k < j \<and> j < Suc k \<longrightarrow> \<not> P j)" by auto
    then show ?thesis by blast
  next
    case False
    with Suc.prems have "i < k" by (cases "i = k") auto
    from Suc.IH [OF this Suc.prems(2)] obtain c where
      c: "c < k" "P c" "\<forall>j. c < j \<and> j < k \<longrightarrow> \<not> P j" by blast
    with False have "c < Suc k \<and> P c \<and> (\<forall>j. c < j \<and> j < Suc k \<longrightarrow> \<not> P j)"
      by (auto simp: less_Suc_eq)
    then show ?thesis by blast
  qed
qed

lemma pygame_apply:
  "setup_note_mapping octave_ranges_pygame n =
    (if n = 108 then Some 7 else if 96 \<le> n \<and> n \<le> 107 then Some 6
     else if 84 \<le> n \<and> n \<le> 95 then Some 5 else if 72 \<le> n \<and> n \<le> 83 then Some 4
     else if 60 \<le> n \<and> n \<le> 71 then Some 3 else if 48 \<le> n \<and> n \<le> 59 then Some 2
     else if 35 \<le> n \<and> n \<le> 47 then Some 1 else if 21 \<le> n \<and> n \<le> 34 then Some 0 else None)"
  by (simp add: setup_note_mapping_fill_all octave_ranges_pygame_def fill_all_Cons fill_all_Nil
      fill_range_apply)

lemma rtmidi_apply:
  "setup_note_mapping octave_ranges_rtmidi n =
    (if 84 \<le> n \<and> n \<le> 108 then Some 7 else if 78 \<le> n \<and> n \<le> 83 then Some 6
     else if 72 \<le> n \<and> n \<le> 77 then Some 5 else if 66 \<le> n \<and> n \<le> 71 then Some 4
     else if 60 \<le> n \<and> n \<le> 65 then Some 3 else if 54 \<le> n \<and> n \<le> 59 then Some 2
     else if 48 \<le> n \<and> n \<le> 53 then Some 1 else if 21 \<le> n \<and> n \<le> 47 then Some 0 else None)"
  by (simp add: setup_note_mapping_fill_all octave_ranges_rtmidi_def fill_all_Cons fill_all_Nil
      fill_range_apply)




subsection \<open>Well-formedness is established by the constructor and kept by every method\<close>

lemma wf_init: "length rs \<le> 8 \<Longrightarrow> wf_controller (init rs)"
  by (auto simp: wf_controller_def init_def dest: setup_note_mapping_bound)

lemma wf_init_pygame: "wf_controller (init octave_ranges_pygame)"
  by (rule wf_init) (simp add: octave_ranges_pygame_def)

lemma wf_init_rtmidi: "wf_controller (init octave_ranges_rtmidi)"
  by (rule wf_init) (simp add: octave_ranges_rtmidi_def)

lemma set_relay_fields:
  "relay_pins (set_relay s c b) = relay_pins s"
  "note_to_relay (set_relay s c b) = note_to_relay s"
  "active_notes (set_relay s c b) = active_notes s"
  "running (set_relay s c b) = running s"
  by (simp_all add: set_relay_def)

lemma handle_note_on_fields:
  "relay_pins (handle_note_on s n v) = relay_pins s"
  "note_to_relay (handle_note_on s n v) = note_to_relay s"
  by (simp_all add: handle_note_on_def set_relay_fields split: option.split)

lemma handle_note_off_fields:
  "relay_pins (handle_note_off s n) = relay_pins s"
  "note_to_relay (handle_note_off s n) = note_to_relay s"
  by (simp_all add: handle_note_off_def set_relay_fields split: option.split)

lemma wf_handle_note_on: "wf_controller s \<Longrightarrow> wf_controller (handle_note_on s n v)"
  by (auto simp: wf_controller_def handle_note_on_fields)

lemma wf_handle_note_off: "wf_controller s \<Longrightarrow> wf_controller (handle_note_off s n)"
  by (auto simp: wf_controller_def handle_note_off_fields)

lemma wf_active_notes_update: "wf_controller s \<Longrightarrow> wf_controller (s\<lparr>active_notes := A\<rparr>)"
  by (auto simp: wf_controller_def)

text \<open>
  C1: on a well-formed controller, \<open>handle_note_off\<close> of a mapped note \<open>n\<close> that is
  active removes \<open>n\<close> and emits \<open>(channel of n, False)\<close>, whatever else is active; any
  other note \<open>m\<close> of the same channel that was active stays active.
\<close>

theorem note_off_emits_per_event:
  assumes "wf_controller s" and "note_to_relay s n = Some c" and "n \<in> active_notes s"
  shows "handle_note_off s n =
           s\<lparr>active_notes := active_notes s - {n}, emitted := emitted s @ [(c, False)]\<rparr> \<and>
         (m \<noteq> n \<and> m \<in> active_notes s \<and> note_to_relay s m = Some c \<longrightarrow>
            m \<in> active_notes (handle_note_off s n) \<and>
            emitted (handle_note_off s n) = emitted s @ [(c, False)])"
proof -
  from assms(1,2) have "c < length (relay_pins s)" by (auto simp: wf_controller_def)
  with assms(2,3) show ?thesis by (simp add: handle_note_off_def set_relay_def)
qed

theorem note_off_emits_per_event_witness:
  "handle_note_off (handle_note_on (handle_note_on (init octave_ranges_pygame) 21 100) 34 90) 21 =
     (init octave_ranges_pygame)
       \<lparr>active_notes := {34}, emitted := [(0, True), (0, True), (0, False)]\<rparr> \<and>
   34 \<in> active_notes
     (handle_note_off (handle_note_on (handle_note_on (init octave_ranges_pygame) 21 100) 34 90) 21)"
proof -
  let ?s = "handle_note_on (handle_note_on (init octave_ranges_pygame) 21 100) 34 90"
  have wf: "wf_controller ?s"
    by (intro wf_handle_note_on wf_init_pygame)
  have s: "?s = (init octave_ranges_pygame)\<lparr>active_notes := {21, 34}, emitted := [(0, True), (0, True)]\<rparr>"
    by (simp add: handle_note_on_def set_relay_def init_def pygame_apply insert_commute)
  have tbl: "note_to_relay ?s 21 = Some 0" "note_to_relay ?s 34 = Some 0"
    by (simp_all add: handle_note_on_fields init_def pygame_apply)
  have act: "21 \<in> active_notes ?s" "34 \<in> active_notes ?s"
    by (simp_all add: s)
  from note_off_emits_per_event [OF wf tbl(1) act(1), of 34] tbl(2) act(2)
  show ?thesis by (simp add: s)
qed

text \<open>
  C5: \<open>handle_note_off\<close> of a note that is not active changes nothing: no emission, the
  same active notes. A second \<open>handle_note_off\<close> of the same note is therefore without
  effect.
\<close>

theorem note_off_inactive_noop:
  "(n \<notin> active_notes s \<longrightarrow> handle_note_off s n = s) \<and>
   handle_note_off (handle_note_off s n) n = handle_note_off s n"
  by (simp add: handle_note_off_def set_relay_def split: option.split)

theorem note_off_inactive_noop_witness:
  "60 \<notin> active_notes (init octave_ranges_pygame) \<and>
   handle_note_off (init octave_ranges_pygame) 60 = init octave_ranges_pygame"
  using note_off_inactive_noop [of 60 "init octave_ranges_pygame"]
  by (simp add: init_def)

text \<open>
  C6: on a well-formed controller, \<open>handle_note_on\<close> of a mapped note \<open>n\<close> with a
  positive velocity inserts \<open>n\<close> and emits \<open>(channel of n, True)\<close>; when \<open>n\<close> is active
  already the emission is the same and the active notes do not change.
\<close>

theorem note_on_inserts_and_emits:
  assumes "wf_controller s" and "note_to_relay s n = Some c" and "v > 0"
  shows "handle_note_on s n v =
           s\<lparr>active_notes := insert n (active_notes s), emitted := emitted s @ [(c, True)]\<rparr> \<and>
         (n \<in> active_notes s \<longrightarrow>
            active_notes (handle_note_on s n v) = active_notes s \<and>
            emitted (handle_note_on s n v) = emitted s @ [(c, True)])"
proof -
  from assms(1,2) have "c < length (relay_pins s)" by (auto simp: wf_controller_def)
  with assms(2,3) show ?thesis by (auto simp: handle_note_on_def set_relay_def)
qed

theorem note_on_inserts_and_emits_witness:
  "handle_note_on (handle_note_on (init octave_ranges_rtmidi) 60 64) 60 64 =
     (init octave_ranges_rtmidi)\<lparr>active_notes := {60}, emitted := [(3, True), (3, True)]\<rparr>"
proof -
  let ?s = "handle_note_on (init octave_ranges_rtmidi) 60 64"
  have wf0: "wf_controller (init octave_ranges_rtmidi)" by (rule wf_init_rtmidi)
  have tbl0: "note_to_relay (init octave_ranges_rtmidi) 60 = Some 3"
    by (simp add: init_def rtmidi_apply)
  have s: "?s = (init octave_ranges_rtmidi)\<lparr>active_notes := {60}, emitted := [(3, True)]\<rparr>"
    using note_on_inserts_and_emits [OF wf0 tbl0, of 64] by (simp add: init_def)
  have wf: "wf_controller ?s" by (intro wf_handle_note_on wf0)
  have tbl: "note_to_relay ?s 60 = Some 3"
    by (simp add: handle_note_on_fields init_def rtmidi_apply)
  have act: "60 \<in> active_notes ?s" by (simp add: s)
  from note_on_inserts_and_emits [OF wf tbl, of 64] act
  show ?thesis by (simp add: s)
qed

subsection \<open>Decoding\<close>

lemma process_event_three:
  "process_event s (status # n # v # tail, t) =
     Inr (if 0x80 \<le> status \<and> status \<le> 0x8F then handle_note_off s n
          else if 0x90 \<le> status \<and> status \<le> 0x9F then
            (if v = 0 then handle_note_off s n else handle_note_on s n v)
          else s)"
  by (simp add: process_event_def)

lemma midi_callback_three:
  "midi_callback s (status # n # v # tail, t) =
     (if 0x80 \<le> status \<and> status \<le> 0x8F then handle_note_off s n
      else if 0x90 \<le> status \<and> status \<le> 0x9F then
        (if v = 0 then handle_note_off s n else handle_note_on s n v)
      else s)"
  by (simp add: midi_callback_def)

lemma three_bytes_shape:
  "3 \<le> length (data :: int list) \<Longrightarrow> \<exists>status n v tail. data = status # n # v # tail"
  by (cases data; cases "tl data"; cases "tl (tl data)") auto

lemma process_event_callback:
  assumes "3 \<le> length (fst e)"
  shows "process_event s e = Inr (midi_callback s e)"
proof -
  from three_bytes_shape [OF assms] obtain status n v tail
    where "fst e = status # n # v # tail" by blast
  then have "e = (status # n # v # tail, snd e)" by (cases e) simp
  then show ?thesis
    using process_event_three [of s status n v tail "snd e"]
      midi_callback_three [of s status n v tail "snd e"] by simp
qed

lemma process_events_callback:
  "\<forall>e \<in> set es. 3 \<le> length (fst e) \<Longrightarrow>
   process_events s es = Inr (fold (\<lambda>e s'. midi_callback s' e) es s)"
  by (induction es arbitrary: s) (simp_all add: process_event_callback)

lemma process_midi_events_callback:
  assumes "\<forall>e \<in> set pending. 3 \<le> length (fst e)"
  shows "process_midi_events s pending =
           (Inr (fold (\<lambda>e s'. midi_callback s' e) (take 10 pending) s), drop 10 pending)"
proof -
  from assms have "\<forall>e \<in> set (take 10 pending). 3 \<le> length (fst e)"
    by (auto dest: in_set_takeD)
  then show ?thesis
    by (simp add: process_midi_events_def process_events_callback)
qed

lemma run_loop_callback:
  "\<forall>e \<in> set pending. 3 \<le> length (fst e) \<Longrightarrow>
   run_loop k s pending =
     (Inr (fold (\<lambda>e s'. midi_callback s' e) (take (10 * k) pending) s), drop (10 * k) pending)"
proof (induction k arbitrary: s pending)
  case 0
  show ?case by simp
next
  case (Suc k)
  let ?f = "\<lambda>e s'. midi_callback s' e"
  from Suc.prems have rest: "\<forall>e \<in> set (drop 10 pending). 3 \<le> length (fst e)"
    by (auto dest: in_set_dropD)
  have split: "take (10 * Suc k) pending = take 10 pending @ take (10 * k) (drop 10 pending)"
    by (simp add: take_add)
  have "run_loop (Suc k) s pending = run_loop k (fold ?f (take 10 pending) s) (drop 10 pending)"
    by (simp add: process_midi_events_callback [OF Suc.prems])
  also have "\<dots> = (Inr (fold ?f (take (10 * k) (drop 10 pending)) (fold ?f (take 10 pending) s)),
                    drop (10 * k) (drop 10 pending))"
    by (rule Suc.IH [OF rest])
  also have "\<dots> = (Inr (fold ?f (take (10 * Suc k) pending) s), drop (10 * Suc k) pending)"
    by (simp only: split fold_append o_apply drop_drop) (simp add: add.commute)
  finally show ?case .
qed


















text \<open>
  C4: a Note-On message with velocity 0 (status 0x90..0x9F) and a Note-Off message
  (status 0x80..0x8F) for the same note lead, from every state and on both decode paths,
  to the same state: that of \<open>handle_note_off\<close>.
\<close>

theorem note_on_zero_is_note_off:
  assumes "0x90 \<le> on_status \<and> on_status \<le> 0x9F" and "0x80 \<le> off_status \<and> off_status \<le> 0x8F"
  shows "process_event s (on_status # n # 0 # tail, t) = Inr (handle_note_off s n) \<and>
         process_event s (off_status # n # v # tail', t') = Inr (handle_note_off s n) \<and>
         midi_callback s (on_status # n # 0 # tail, t) = handle_note_off s n \<and>
         midi_callback s (off_status # n # v # tail', t') = handle_note_off s n \<and>
         process_midi_events s [(on_status # n # 0 # tail, t)] =
           process_midi_events s [(off_status # n # v # tail', t)]"
  using assms
  by (simp add: process_event_three midi_callback_three process_midi_events_def)

theorem note_on_zero_is_note_off_witness:
  "midi_callback (handle_note_on (init octave_ranges_rtmidi) 60 64) ([0x90, 60, 0], 0::nat) =
     (init octave_ranges_rtmidi)\<lparr>active_notes := {}, emitted := [(3, True), (3, False)]\<rparr> \<and>
   midi_callback (handle_note_on (init octave_ranges_rtmidi) 60 64) ([0x80, 60, 64], 0::nat) =
     (init octave_ranges_rtmidi)\<lparr>active_notes := {}, emitted := [(3, True), (3, False)]\<rparr> \<and>
   process_event (handle_note_on (init octave_ranges_rtmidi) 60 64) ([0x90, 60, 0], 0::nat) =
     process_event (handle_note_on (init octave_ranges_rtmidi) 60 64) ([0x80, 60, 64], 0::nat)"
proof -
  have on: "(0x90::int) \<le> 0x90 \<and> (0x90::int) \<le> 0x9F" by simp
  have off: "(0x80::int) \<le> 0x80 \<and> (0x80::int) \<le> 0x8F" by simp
  have off_state:
    "handle_note_off (handle_note_on (init octave_ranges_rtmidi) 60 64) 60 =
       (init octave_ranges_rtmidi)\<lparr>active_notes := {}, emitted := [(3, True), (3, False)]\<rparr>"
    by (simp add: handle_note_on_def handle_note_off_def set_relay_def init_def rtmidi_apply)
  from note_on_zero_is_note_off [OF on off,
      of "handle_note_on (init octave_ranges_rtmidi) 60 64" 60 "[]" "0::nat" 64 "[]" "0::nat"]
  show ?thesis by (simp add: off_state)
qed

text \<open>
  C8: a three-byte message whose status is in neither 0x80..0x8F nor 0x90..0x9F leaves
  the state as it is on both decode paths: no emission, the same active notes. No
  three-byte message, whatever its status, makes the polling path raise.
\<close>

theorem other_status_dropped:
  "(\<exists>s'. process_event s ([status, data1, data2], t) = Inr s') \<and>
   (\<not> (0x80 \<le> status \<and> status \<le> 0x8F) \<and> \<not> (0x90 \<le> status \<and> status \<le> 0x9F) \<longrightarrow>
      process_event s ([status, data1, data2], t) = Inr s \<and>
      process_midi_events s [([status, data1, data2], t)] = (Inr s, []) \<and>
      midi_callback s ([status, data1, data2], t) = s)"
  by (simp add: process_event_three midi_callback_three process_midi_events_def)

theorem other_status_dropped_witness:
  "process_event (handle_note_on (init octave_ranges_pygame) 60 64) ([0xB0, 64, 127], 0::nat) =
     Inr (handle_note_on (init octave_ranges_pygame) 60 64) \<and>
   midi_callback (handle_note_on (init octave_ranges_pygame) 60 64) ([0xB0, 64, 127], 0::nat) =
     handle_note_on (init octave_ranges_pygame) 60 64"
  using other_status_dropped
    [of "handle_note_on (init octave_ranges_pygame) 60 64" "0xB0" 64 127 "0::nat"]
  by simp

subsection \<open>Shutdown\<close>

lemma fold_set_relay_off:
  "k \<le> length (relay_pins s) \<Longrightarrow>
   fold (\<lambda>i s'. set_relay s' i False) [0..<k] s =
     s\<lparr>emitted := emitted s @ map (\<lambda>i. (i, False)) [0..<k]\<rparr>"
  by (induction k) (simp_all add: set_relay_def)

lemma cleanup_eq:
  "cleanup s =
     s\<lparr>running := False,
       emitted := emitted s @ map (\<lambda>i. (i, False)) [0..<length (relay_pins s)]\<rparr>"
  by (simp add: cleanup_def fold_set_relay_off)

lemma upt_8: "[0..<8] = [0, 1, 2, 3, 4, 5, 6, 7::nat]"
  by code_simp

text \<open>
  C2 (amended): with eight pins, \<open>cleanup\<close> emits \<open>(c, False)\<close> for the channels 0 to 7 in
  this order, whatever the active notes are, and leaves the active notes as they were.
\<close>

theorem cleanup_all_off:
  assumes "length (relay_pins s) = 8"
  shows "emitted (cleanup s) =
           emitted s @ [(0, False), (1, False), (2, False), (3, False),
                        (4, False), (5, False), (6, False), (7, False)] \<and>
         active_notes (cleanup s) = active_notes s \<and>
         running (cleanup s) = False"
  using assms by (simp add: cleanup_eq upt_8)

theorem cleanup_all_off_witness:
  "emitted (cleanup ((init octave_ranges_pygame)\<lparr>active_notes := {21, 60, 90}\<rparr>)) =
     [(0, False), (1, False), (2, False), (3, False),
      (4, False), (5, False), (6, False), (7, False)] \<and>
   active_notes (cleanup ((init octave_ranges_pygame)\<lparr>active_notes := {21, 60, 90}\<rparr>)) =
     {21, 60, 90}"
proof -
  have len: "length (relay_pins ((init octave_ranges_pygame)\<lparr>active_notes := {21, 60, 90}\<rparr>)) = 8"
    by (simp add: init_def)
  from cleanup_all_off [OF len] show ?thesis by (simp add: init_def)
qed

text \<open>
  C2 as written has the active notes empty after shutdown: after three notes on
  three channels, \<open>cleanup\<close> switches all eight channels off and the three notes are
  still in \<open>active_notes\<close>.
\<close>

theorem cleanup_keeps_active_notes_counterexample:
  "active_notes
     (cleanup (handle_note_on (handle_note_on (handle_note_on
        (init octave_ranges_pygame) 21 100) 60 100) 90 100)) = {21, 60, 90} \<and>
   active_notes
     (cleanup (handle_note_on (handle_note_on (handle_note_on
        (init octave_ranges_pygame) 21 100) 60 100) 90 100)) \<noteq> {} \<and>
   emitted
     (cleanup (handle_note_on (handle_note_on (handle_note_on
        (init octave_ranges_pygame) 21 100) 60 100) 90 100)) =
     [(0, True), (3, True), (5, True),
      (0, False), (1, False), (2, False), (3, False),
      (4, False), (5, False), (6, False), (7, False)]"
  by (simp add: cleanup_eq upt_8 handle_note_on_def set_relay_def init_def pygame_apply
      insert_commute)

subsection \<open>The table of any list of ranges\<close>

lemma setup_note_mapping_last:
  assumes "c < length rs" and "in_range (rs ! c) n"
    and "\<forall>j. c < j \<and> j < length rs \<longrightarrow> \<not> in_range (rs ! j) n"
  shows "setup_note_mapping rs n = Some c"
  using fill_all_last [OF assms, of 0 Map.empty] by (simp add: setup_note_mapping_fill_all)

lemma setup_note_mapping_nowhere:
  assumes "\<forall>i<length rs. \<not> in_range (rs ! i) n"
  shows "setup_note_mapping rs n = None"
  using fill_all_none [OF assms, of 0 Map.empty] by (simp add: setup_note_mapping_fill_all)

lemma setup_note_mapping_None_iff:
  "setup_note_mapping rs n = None \<longleftrightarrow> (\<forall>i<length rs. \<not> in_range (rs ! i) n)"
proof
  assume eq: "setup_note_mapping rs n = None"
  show "\<forall>i<length rs. \<not> in_range (rs ! i) n"
  proof (rule ccontr)
    assume "\<not> (\<forall>i<length rs. \<not> in_range (rs ! i) n)"
    then obtain i where "i < length rs" "in_range (rs ! i) n" by blast
    from last_index_ex [of i "length rs" "\<lambda>i. in_range (rs ! i) n", OF this]
    obtain c where "c < length rs" "in_range (rs ! c) n"
      "\<forall>j. c < j \<and> j < length rs \<longrightarrow> \<not> in_range (rs ! j) n" by blast
    from setup_note_mapping_last [OF this] eq show False by simp
  qed
qed (rule setup_note_mapping_nowhere)

lemma setup_note_mapping_Some_iff:
  "setup_note_mapping rs n = Some c \<longleftrightarrow>
     c < length rs \<and> in_range (rs ! c) n \<and>
     (\<forall>j. c < j \<and> j < length rs \<longrightarrow> \<not> in_range (rs ! j) n)"
proof
  assume eq: "setup_note_mapping rs n = Some c"
  then have "\<not> (\<forall>i<length rs. \<not> in_range (rs ! i) n)"
    using setup_note_mapping_None_iff [of rs n] by auto
  then obtain i where "i < length rs" "in_range (rs ! i) n" by blast
  from last_index_ex [of i "length rs" "\<lambda>i. in_range (rs ! i) n", OF this]
  obtain c' where c': "c' < length rs" "in_range (rs ! c') n"
    "\<forall>j. c' < j \<and> j < length rs \<longrightarrow> \<not> in_range (rs ! j) n" by blast
  from setup_note_mapping_last [OF c'] eq have "c' = c" by simp
  with c' show "c < length rs \<and> in_range (rs ! c) n \<and>
     (\<forall>j. c < j \<and> j < length rs \<longrightarrow> \<not> in_range (rs ! j) n)" by simp
next
  assume "c < length rs \<and> in_range (rs ! c) n \<and>
     (\<forall>j. c < j \<and> j < length rs \<longrightarrow> \<not> in_range (rs ! j) n)"
  then show "setup_note_mapping rs n = Some c"
    by (intro setup_note_mapping_last) simp_all
qed

subsection \<open>The configured tables\<close>

lemma unmapped_note_ignored:
  assumes "note_to_relay s n = None"
  shows "handle_note_on s n v = s" and "handle_note_off s n = s"
  using assms by (simp_all add: handle_note_on_def handle_note_off_def)

lemma pygame_cover:
  "length (filter (\<lambda>r. in_range r n) octave_ranges_pygame) = (if 21 \<le> n \<and> n \<le> 108 then 1 else 0)"
  by (simp add: octave_ranges_pygame_def in_range_def)

lemma rtmidi_cover:
  "length (filter (\<lambda>r. in_range r n) octave_ranges_rtmidi) = (if 21 \<le> n \<and> n \<le> 108 then 1 else 0)"
  by (simp add: octave_ranges_rtmidi_def in_range_def)

lemma pygame_defined:
  "setup_note_mapping octave_ranges_pygame n \<noteq> None \<longleftrightarrow> 21 \<le> n \<and> n \<le> 108"
  by (simp add: pygame_apply) arith

lemma rtmidi_defined:
  "setup_note_mapping octave_ranges_rtmidi n \<noteq> None \<longleftrightarrow> 21 \<le> n \<and> n \<le> 108"
  by (simp add: rtmidi_apply) arith


lemma configured_defined:
  assumes "rs = octave_ranges_pygame \<or> rs = octave_ranges_rtmidi"
  shows "setup_note_mapping rs n \<noteq> None \<longleftrightarrow> 21 \<le> n \<and> n \<le> 108"
  using assms pygame_defined [of n] rtmidi_defined [of n] by (elim disjE) simp_all

lemma configured_cover:
  assumes "rs = octave_ranges_pygame \<or> rs = octave_ranges_rtmidi"
  shows "length (filter (\<lambda>r. in_range r n) rs) = (if 21 \<le> n \<and> n \<le> 108 then 1 else 0)"
  using assms pygame_cover [of n] rtmidi_cover [of n] by (elim disjE) simp_all

lemma configured_length:
  assumes "rs = octave_ranges_pygame \<or> rs = octave_ranges_rtmidi"
  shows "length rs = 8"
  using assms by (elim disjE) (simp_all add: octave_ranges_pygame_def octave_ranges_rtmidi_def)

text \<open>
  C7: under the table of either file, a note of 21..108 has a channel below 8, whose
  range holds it, and lies in exactly one of the ranges; a note outside 21..108 lies in
  no range and has no channel, and neither handler nor decode path changes the state
  (so nothing is emitted) on an event for it.
\<close>

theorem configured_tables_partition:
  assumes "rs = octave_ranges_pygame \<or> rs = octave_ranges_rtmidi"
    and "note_to_relay s = setup_note_mapping rs"
  shows "(21 \<le> n \<and> n \<le> 108 \<longrightarrow>
            (\<exists>c<8. setup_note_mapping rs n = Some c \<and> in_range (rs ! c) n) \<and>
            length (filter (\<lambda>r. in_range r n) rs) = 1) \<and>
         (\<not> (21 \<le> n \<and> n \<le> 108) \<longrightarrow>
            setup_note_mapping rs n = None \<and>
            filter (\<lambda>r. in_range r n) rs = [] \<and>
            handle_note_on s n v = s \<and>
            handle_note_off s n = s \<and>
            process_event s (status # n # tail, t) = Inr s \<and>
            midi_callback s (status # n # tail, t) = s)"
proof (intro conjI impI)
  assume inside: "21 \<le> n \<and> n \<le> 108"
  with configured_defined [OF assms(1), of n] obtain c where c: "setup_note_mapping rs n = Some c"
    by auto
  then have "c < length rs" and "in_range (rs ! c) n"
    by (simp_all add: setup_note_mapping_Some_iff)
  with c configured_length [OF assms(1)]
  show "\<exists>c<8. setup_note_mapping rs n = Some c \<and> in_range (rs ! c) n" by auto
  from inside configured_cover [OF assms(1), of n]
  show "length (filter (\<lambda>r. in_range r n) rs) = 1" by simp
next
  assume outside: "\<not> (21 \<le> n \<and> n \<le> 108)"
  with configured_defined [OF assms(1), of n] show none: "setup_note_mapping rs n = None"
    by auto
  from outside configured_cover [OF assms(1), of n]
  show "filter (\<lambda>r. in_range r n) rs = []" by auto
  from none assms(2) have unmapped: "note_to_relay s n = None" by simp
  then show "handle_note_on s n v = s" and off: "handle_note_off s n = s"
    by (rule unmapped_note_ignored)+
  have on: "handle_note_on s n v' = s" for v'
    using unmapped by (rule unmapped_note_ignored)
  show "process_event s (status # n # tail, t) = Inr s"
    by (cases tail) (simp_all add: process_event_def on off)
  show "midi_callback s (status # n # tail, t) = s"
    by (cases tail) (simp_all add: midi_callback_def on off)
qed

theorem configured_tables_partition_witness:
  "setup_note_mapping octave_ranges_rtmidi 50 = Some 1 \<and>
   in_range (octave_ranges_rtmidi ! 1) 50 \<and>
   length (filter (\<lambda>r. in_range r 50) octave_ranges_rtmidi) = 1 \<and>
   setup_note_mapping octave_ranges_rtmidi 109 = None \<and>
   handle_note_on (init octave_ranges_rtmidi) 109 64 = init octave_ranges_rtmidi \<and>
   midi_callback (init octave_ranges_rtmidi) ([0x90, 109, 64], 0::nat) = init octave_ranges_rtmidi"
proof -
  have rs: "octave_ranges_rtmidi = octave_ranges_pygame \<or> octave_ranges_rtmidi = octave_ranges_rtmidi"
    by simp
  have tbl: "note_to_relay (init octave_ranges_rtmidi) = setup_note_mapping octave_ranges_rtmidi"
    by (simp add: init_def)
  have a: "(21::int) \<le> 50 \<and> (50::int) \<le> 108" by simp
  have b: "\<not> (21 \<le> (109::int) \<and> (109::int) \<le> 108)" by simp
  have one: "setup_note_mapping octave_ranges_rtmidi 50 = Some 1"
    by (simp add: rtmidi_apply)
  from configured_tables_partition [OF rs tbl, of 50] a
  have inside: "(\<exists>c<8. setup_note_mapping octave_ranges_rtmidi 50 = Some c \<and>
          in_range (octave_ranges_rtmidi ! c) 50) \<and>
      length (filter (\<lambda>r. in_range r 50) octave_ranges_rtmidi) = 1"
    by (rule conjunct1 [THEN mp])
  with one have inside': "in_range (octave_ranges_rtmidi ! 1) 50 \<and>
      length (filter (\<lambda>r. in_range r 50) octave_ranges_rtmidi) = 1"
    by auto
  from configured_tables_partition [OF rs tbl, of 109 64 "0x90" "[64]" "0::nat"] b
  have outside: "setup_note_mapping octave_ranges_rtmidi 109 = None \<and>
      handle_note_on (init octave_ranges_rtmidi) 109 64 = init octave_ranges_rtmidi \<and>
      midi_callback (init octave_ranges_rtmidi) ([0x90, 109, 64], 0::nat) = init octave_ranges_rtmidi"
    by blast
  from one inside' outside show ?thesis by blast
qed

subsection \<open>Construction\<close>




subsection \<open>The invariant of event processing\<close>

lemma tracker_inv_init: "tracker_inv (init rs)"
  by (simp add: tracker_inv_def init_def)

lemma tracker_inv_note_on:
  assumes "tracker_inv s"
  shows "tracker_inv (handle_note_on s n v)"
proof (cases "note_to_relay s n")
  case None
  with assms show ?thesis by (simp add: handle_note_on_def)
next
  case (Some c)
  then have "c \<in> ran (note_to_relay s)" by (auto simp: ran_def)
  with assms Some show ?thesis
    by (auto simp: tracker_inv_def handle_note_on_def set_relay_def)
qed

lemma tracker_inv_note_off:
  assumes "tracker_inv s"
  shows "tracker_inv (handle_note_off s n)"
proof (cases "note_to_relay s n")
  case None
  with assms show ?thesis by (simp add: handle_note_off_def)
next
  case (Some c)
  then have "c \<in> ran (note_to_relay s)" by (auto simp: ran_def)
  with assms Some show ?thesis
    by (auto simp: tracker_inv_def handle_note_off_def set_relay_def)
qed

lemma tracker_inv_callback:
  "tracker_inv s \<Longrightarrow> tracker_inv (midi_callback s e)"
  by (simp add: midi_callback_def Let_def tracker_inv_note_on tracker_inv_note_off)

lemma tracker_inv_event:
  "tracker_inv s \<Longrightarrow> process_event s e = Inr s' \<Longrightarrow> tracker_inv s'"
  by (auto simp: process_event_def Let_def tracker_inv_note_on tracker_inv_note_off
      split: if_splits)

lemma tracker_inv_event_raise:
  "tracker_inv s \<Longrightarrow> process_event s e = Inl (err, s') \<Longrightarrow> tracker_inv s'"
  by (auto simp: process_event_def Let_def split: if_splits)

lemma tracker_inv_events:
  "tracker_inv s \<Longrightarrow> process_events s es = Inr s' \<Longrightarrow> tracker_inv s'"
proof (induction es arbitrary: s)
  case Nil
  then show ?case by simp
next
  case (Cons e es)
  then show ?case
    by (cases "process_event s e") (auto dest: tracker_inv_event)
qed

lemma tracker_inv_events_raise:
  "tracker_inv s \<Longrightarrow> process_events s es = Inl (err, s') \<Longrightarrow> tracker_inv s'"
proof (induction es arbitrary: s)
  case Nil
  then show ?case by simp
next
  case (Cons e es)
  then show ?case
    by (cases "process_event s e") (auto dest: tracker_inv_event tracker_inv_event_raise)
qed


lemma tracker_inv_poll:
  assumes "tracker_inv s" and "process_midi_events s pending = (Inr s', rest)"
  shows "tracker_inv s'"
proof (cases "pending = []")
  case True
  with assms show ?thesis by (simp add: process_midi_events_def)
next
  case False
  with assms(2) have "process_events s (take 10 pending) = Inr s'"
    by (simp add: process_midi_events_def)
  with assms(1) show ?thesis by (rule tracker_inv_events)
qed

text \<open>
  C10: the constructor establishes the invariant (no active note, nothing emitted), and
  both handlers and both decode paths keep it, also when the polling path raises. Under
  the invariant every active note is a key of the table, and every channel emitted is a
  value of the table and below 8.
\<close>

theorem event_processing_invariant:
  "tracker_inv (init rs) \<and>
   (tracker_inv s \<longrightarrow>
      tracker_inv (handle_note_on s n v) \<and>
      tracker_inv (handle_note_off s n) \<and>
      tracker_inv (midi_callback s e) \<and>
      (\<forall>s'. process_event s e = Inr s' \<longrightarrow> tracker_inv s') \<and>
      (\<forall>s'. process_events s es = Inr s' \<longrightarrow> tracker_inv s') \<and>
      (\<forall>err s'. process_events s es = Inl (err, s') \<longrightarrow> tracker_inv s') \<and>
      (\<forall>s' rest. process_midi_events s es = (Inr s', rest) \<longrightarrow> tracker_inv s') \<and>
      active_notes s \<subseteq> dom (note_to_relay s) \<and>
      (\<forall>(c, state) \<in> set (emitted s). c \<in> ran (note_to_relay s) \<and> c < 8))"
proof (intro conjI impI allI)
  show "tracker_inv (init rs)" by (rule tracker_inv_init)
next
  assume inv: "tracker_inv s"
  show "tracker_inv (handle_note_on s n v)" using inv by (rule tracker_inv_note_on)
  show "tracker_inv (handle_note_off s n)" using inv by (rule tracker_inv_note_off)
  show "tracker_inv (midi_callback s e)" using inv by (rule tracker_inv_callback)
  show "active_notes s \<subseteq> dom (note_to_relay s)" using inv by (simp add: tracker_inv_def)
  show "\<forall>(c, state) \<in> set (emitted s). c \<in> ran (note_to_relay s) \<and> c < 8"
    using inv by (simp add: tracker_inv_def)
next
  fix s' assume "tracker_inv s" and "process_event s e = Inr s'"
  then show "tracker_inv s'" by (rule tracker_inv_event)
next
  fix s' assume "tracker_inv s" and "process_events s es = Inr s'"
  then show "tracker_inv s'" by (rule tracker_inv_events)
next
  fix err s' assume "tracker_inv s" and "process_events s es = Inl (err, s')"
  then show "tracker_inv s'" by (rule tracker_inv_events_raise)
next
  fix s' rest assume "tracker_inv s" and "process_midi_events s es = (Inr s', rest)"
  then show "tracker_inv s'" by (rule tracker_inv_poll)
qed

theorem event_processing_invariant_witness:
  "active_notes (handle_note_on (init octave_ranges_pygame) 60 64) = {60} \<and>
   60 \<in> dom (note_to_relay (handle_note_on (init octave_ranges_pygame) 60 64)) \<and>
   emitted (handle_note_on (init octave_ranges_pygame) 60 64) = [(3, True)] \<and>
   3 \<in> ran (note_to_relay (handle_note_on (init octave_ranges_pygame) 60 64))"
proof -
  let ?s = "handle_note_on (init octave_ranges_pygame) 60 64"
  have start: "tracker_inv (init octave_ranges_pygame)"
    using event_processing_invariant [of octave_ranges_pygame] by (rule conjunct1)
  from event_processing_invariant [of octave_ranges_pygame "init octave_ranges_pygame" 60 64] start
  have step: "tracker_inv ?s" by blast
  from event_processing_invariant [of octave_ranges_pygame ?s] step
  have sub: "active_notes ?s \<subseteq> dom (note_to_relay ?s)"
    and emi: "\<forall>(c, state) \<in> set (emitted ?s). c \<in> ran (note_to_relay ?s) \<and> c < 8"
    by blast+
  have val: "?s = (init octave_ranges_pygame)\<lparr>active_notes := {60}, emitted := [(3, True)]\<rparr>"
    by (simp add: handle_note_on_def set_relay_def init_def pygame_apply)
  have act: "active_notes ?s = {60}" and out: "emitted ?s = [(3, True)]"
    by (simp_all add: val)
  from sub act have "60 \<in> dom (note_to_relay ?s)" by auto
  moreover from emi out have "3 \<in> ran (note_to_relay ?s)" by auto
  ultimately show ?thesis using act out by blast
qed

end
